theory Spec2Isabelle
  imports Main "HOL-Library.Word" "HOL-Library.Log_Nat"
begin

section \<open>Values, errors and the USB transport\<close>

type_synonym u8 = "8 word"
type_synonym u16 = "16 word"

text \<open>
  The exceptions the driver can raise: \<open>usb.core.USBError\<close> from a bulk transfer,
  \<open>AssertionError\<close> from an \<open>assert\<close>, \<open>struct.error\<close> from \<open>struct.pack\<close> and
  \<open>struct.unpack\<close>, \<open>ValueError\<close> from numpy, \<open>KeyError\<close> from a dictionary lookup.
  The \<open>assert\<close> statements are executed (the interpreter does not run with \<open>-O\<close>).
\<close>

datatype py_error = USBError | AssertionError | StructError | ValueError | KeyError

text \<open>
  The Python 2 objects a caller can pass to the setters, and the values the driver hands
  back. \<open>int\<close> and \<open>long\<close> are different types in Python 2, and \<open>bool\<close> is a subclass of
  \<open>int\<close>. An \<open>int\<close> is a machine integer, so \<open>PyInt i\<close> with \<open>i\<close> beyond \<open>sys.maxint\<close> stands
  for no object; the driver treats it like any other number above 65535000. A float is
  given by the rational number it stands for.
\<close>

datatype py_value =
    PyNone
  | PyBool bool
  | PyInt int
  | PyLong int
  | PyFloat rat
  | PyStr string

text \<open>\<open>isinstance(v, int)\<close>.\<close>

fun isinstance_int :: "py_value \<Rightarrow> bool" where
  "isinstance_int (PyInt i) = True"
| "isinstance_int (PyBool b) = True"
| "isinstance_int v = False"

text \<open>The number an instance of \<open>int\<close> stands for (\<open>True\<close> is 1, \<open>False\<close> is 0).\<close>

fun int_value :: "py_value \<Rightarrow> int" where
  "int_value (PyInt i) = i"
| "int_value (PyBool b) = (if b then 1 else 0)"
| "int_value v = 0"

text \<open>
  The four bulk endpoints bound in \<open>__init__\<close>, named by their addresses:
  \<open>_cmd_w\<close> is 0x01, \<open>_cmd_r\<close> is 0x81, \<open>_spec_hi\<close> is 0x82, \<open>_spec_lo\<close> is 0x86.
\<close>

datatype endpoint = EP01 | EP81 | EP82 | EP86

definition cmd_w :: endpoint where "cmd_w = EP01"
definition cmd_r :: endpoint where "cmd_r = EP81"
definition spec_hi :: endpoint where "spec_hi = EP82"
definition spec_lo :: endpoint where "spec_lo = EP86"

text \<open>
  What the driver does on the bus, in order: \<open>Write ep bytes\<close> for \<open>ep.write(bytes)\<close>
  and \<open>Read ep size timeout\<close> for \<open>ep.read(size, timeout=timeout)\<close>.
\<close>

datatype io_event = Write endpoint "u8 list" | Read endpoint nat nat

text \<open>The outcome of one bulk transfer: it completes with a value or raises \<open>USBError\<close>.\<close>

datatype 'a xfer = Done 'a | Failed

text \<open>
  The transport is the external collaborator, so it is a script: \<open>out_q\<close> holds the outcomes
  of the successive writes to the command endpoint (the number of bytes the device took),
  \<open>in_q ep\<close> the outcomes of the successive reads from \<open>ep\<close> (the bytes the device sent), and
  \<open>trace\<close> records every transfer the driver has asked for. A transfer on an exhausted
  queue times out.
\<close>

record usb =
  out_q :: "nat xfer list"
  in_q :: "endpoint \<Rightarrow> u8 list xfer list"
  trace :: "io_event list"

definition ep_write :: "endpoint \<Rightarrow> u8 list \<Rightarrow> usb \<Rightarrow> (py_error + nat) \<times> usb" where
  "ep_write ep bs t =
     (let t' = t\<lparr>trace := trace t @ [Write ep bs]\<rparr> in
      case out_q t of
        [] \<Rightarrow> (Inl USBError, t')
      | Failed # q \<Rightarrow> (Inl USBError, t'\<lparr>out_q := q\<rparr>)
      | Done n # q \<Rightarrow> (Inr n, t'\<lparr>out_q := q\<rparr>))"

text \<open>
  A read of \<open>size\<close> bytes returns at most \<open>size\<close> bytes; a device that sends more makes the
  transfer fail (overflow).
\<close>

definition ep_read :: "endpoint \<Rightarrow> nat \<Rightarrow> nat \<Rightarrow> usb \<Rightarrow> (py_error + u8 list) \<times> usb" where
  "ep_read ep sz tmo t =
     (let t' = t\<lparr>trace := trace t @ [Read ep sz tmo]\<rparr> in
      case in_q t ep of
        [] \<Rightarrow> (Inl USBError, t')
      | Failed # q \<Rightarrow> (Inl USBError, t'\<lparr>in_q := (in_q t)(ep := q)\<rparr>)
      | Done bs # q \<Rightarrow>
          (if length bs \<le> sz then Inr bs else Inl USBError,
           t'\<lparr>in_q := (in_q t)(ep := q)\<rparr>))"

section \<open>struct.pack and struct.unpack\<close>

text \<open>Python's slice \<open>xs[i:j]\<close> for \<open>0 \<le> i \<le> j\<close>: it never raises, it is shorter out of range.\<close>

definition slice :: "nat \<Rightarrow> nat \<Rightarrow> 'a list \<Rightarrow> 'a list" where
  "slice i j xs = take (j - i) (drop i xs)"

text \<open>The \<open>k\<close> little-endian bytes of \<open>n\<close>, lowest first.\<close>

fun le_bytes :: "nat \<Rightarrow> int \<Rightarrow> u8 list" where
  "le_bytes 0 n = []"
| "le_bytes (Suc k) n = word_of_int (n mod 256) # le_bytes k (n div 256)"

text \<open>
  \<open>struct.pack\<close> of one unsigned field of \<open>k\<close> bytes in a \<open><\<close> format (standard sizes, no
  padding): \<open>B\<close> is 1 byte, \<open>H\<close> 2 bytes, \<open>I\<close> 4 bytes. A number out of the field's range
  raises \<open>struct.error\<close>.
\<close>

definition pack_le :: "nat \<Rightarrow> int \<Rightarrow> py_error + u8 list" where
  "pack_le k n = (if 0 \<le> n \<and> n < 2 ^ (8 * k) then Inr (le_bytes k n) else Inl StructError)"

definition pack_B :: "int \<Rightarrow> py_error + u8 list" where "pack_B = pack_le 1"
definition pack_H :: "int \<Rightarrow> py_error + u8 list" where "pack_H = pack_le 2"
definition pack_I :: "int \<Rightarrow> py_error + u8 list" where "pack_I = pack_le 4"

text \<open>Two packed fields of one format string, one after the other.\<close>

definition pack2 :: "py_error + u8 list \<Rightarrow> py_error + u8 list \<Rightarrow> py_error + u8 list" where
  "pack2 a b =
     (case a of Inl e \<Rightarrow> Inl e
      | Inr xs \<Rightarrow> (case b of Inl e \<Rightarrow> Inl e | Inr ys \<Rightarrow> Inr (xs @ ys)))"

text \<open>The unsigned number a little-endian byte string stands for.\<close>

fun le_uint :: "u8 list \<Rightarrow> int" where
  "le_uint [] = 0"
| "le_uint (b # bs) = uint b + 256 * le_uint bs"

text \<open>
  \<open>struct.unpack\<close> of a single field: the buffer must have exactly the field's size,
  else \<open>struct.error\<close>.
\<close>

definition unpack_B :: "u8 list \<Rightarrow> py_error + int" where
  "unpack_B bs = (if length bs = 1 then Inr (le_uint bs) else Inl StructError)"

definition unpack_le_H :: "u8 list \<Rightarrow> py_error + int" where
  "unpack_le_H bs = (if length bs = 2 then Inr (le_uint bs) else Inl StructError)"

definition unpack_le_I :: "u8 list \<Rightarrow> py_error + int" where
  "unpack_le_I bs = (if length bs = 4 then Inr (le_uint bs) else Inl StructError)"

text \<open>\<open><h\<close>: two's complement, 16 bits, little-endian.\<close>

definition unpack_le_h :: "u8 list \<Rightarrow> py_error + int" where
  "unpack_le_h bs =
     (if length bs = 2
      then Inr (let u = le_uint bs in if u < 32768 then u else u - 65536)
      else Inl StructError)"

text \<open>\<open>>H\<close>: unsigned, 16 bits, big-endian.\<close>

definition unpack_be_H :: "u8 list \<Rightarrow> py_error + int" where
  "unpack_be_H bs = (if length bs = 2 then Inr (le_uint (rev bs)) else Inl StructError)"

section \<open>Sequencing\<close>

text \<open>
  An exception ends the method: \<open>pure_then\<close> continues after a computation that touches
  no endpoint, \<open>io_then\<close> after a transfer, both only when nothing was raised.
\<close>

definition pure_then ::
  "py_error + 'a \<Rightarrow> usb \<Rightarrow> ('a \<Rightarrow> (py_error + 'b) \<times> usb) \<Rightarrow> (py_error + 'b) \<times> usb" where
  "pure_then r t k = (case r of Inl e \<Rightarrow> (Inl e, t) | Inr v \<Rightarrow> k v)"

definition io_then ::
  "(py_error + 'a) \<times> usb \<Rightarrow> ('a \<Rightarrow> usb \<Rightarrow> (py_error + 'b) \<times> usb) \<Rightarrow> (py_error + 'b) \<times> usb" where
  "io_then m k = (case m of (Inl e, t') \<Rightarrow> (Inl e, t') | (Inr v, t') \<Rightarrow> k v t')"

section \<open>Python floats\<close>

text \<open>
  A Python float is an IEEE 754 binary64 number. \<open>binary64 x\<close> is the double nearest to the
  rational \<open>x\<close>, ties to even, for \<open>x\<close> in the normal range (no overflow, no subnormals):
  with \<open>e = \<lfloor>log\<^sub>2 \<bar>x\<bar>\<rfloor>\<close> the doubles around \<open>x\<close> are the multiples of \<open>2\<^sup>e\<^sup>-\<^sup>5\<^sup>2\<close>. A float
  literal is the double nearest to its decimal value, and a product of two floats is the
  double nearest to the exact product.
\<close>

definition pow2 :: "int \<Rightarrow> rat" where
  "pow2 e = (if 0 \<le> e then 2 ^ nat e else 1 / 2 ^ nat (- e))"

definition ilog2 :: "rat \<Rightarrow> int" where
  "ilog2 x =
     (let (n, d) = quotient_of x; k = bitlen n - bitlen d
      in if pow2 k \<le> x then k else k - 1)"

definition round_half_even :: "rat \<Rightarrow> int" where
  "round_half_even x =
     (let f = \<lfloor>x\<rfloor>; r = x - of_int f
      in if r < 1 / 2 then f else if 1 / 2 < r then f + 1 else if even f then f else f + 1)"

definition binary64 :: "rat \<Rightarrow> rat" where
  "binary64 x =
     (if x = 0 then 0
      else let ulp = pow2 (ilog2 \<bar>x\<bar> - 52) in of_int (round_half_even (x / ulp)) * ulp)"

definition float_of_int :: "int \<Rightarrow> rat" where
  "float_of_int i = binary64 (of_int i)"

definition float_mul :: "rat \<Rightarrow> rat \<Rightarrow> rat" where
  "float_mul a b = binary64 (a * b)"

section \<open>numpy\<close>

text \<open>
  \<open>numpy.frombuffer(buf, dtype='<u2')\<close>: the buffer read as little-endian unsigned 16-bit
  samples; a buffer of odd length raises \<open>ValueError\<close>.
\<close>

fun le_u16s :: "u8 list \<Rightarrow> u16 list" where
  "le_u16s (a # b # bs) = word_of_int (le_uint [a, b]) # le_u16s bs"
| "le_u16s bs = []"

definition frombuffer_u2 :: "u8 list \<Rightarrow> py_error + u16 list" where
  "frombuffer_u2 buf = (if even (length buf) then Inr (le_u16s buf) else Inl ValueError)"

text \<open>
  \<open>data[i:j] = src\<close> on one-dimensional arrays, for \<open>i \<le> j \<le> len(data)\<close>: \<open>src\<close> must have
  the length of the slice, or length 1 (it is then broadcast); else \<open>ValueError\<close>.
\<close>

definition set_slice :: "'a list \<Rightarrow> nat \<Rightarrow> nat \<Rightarrow> 'a list \<Rightarrow> py_error + 'a list" where
  "set_slice data i j src =
     (if length src = j - i then Inr (take i data @ src @ drop j data)
      else if length src = 1 then Inr (take i data @ replicate (j - i) (hd src) @ drop j data)
      else Inl ValueError)"

section \<open>The driver\<close>

text \<open>The module's table of the configuration registers.\<close>

definition config_regs_alist :: "(nat \<times> string) list" where
  "config_regs_alist =
    [(0, ''serial_number''),
     (1, ''0_order_wavelength_coeff''),
     (2, ''1_order_wavelength_coeff''),
     (3, ''2_order_wavelength_coeff''),
     (4, ''3_order_wavelength_coeff''),
     (5, ''stray_light_constant''),
     (6, ''0_order_nonlinear_coeff''),
     (7, ''1_order_nonlinear_coeff''),
     (8, ''2_order_nonlinear_coeff''),
     (9, ''3_order_nonlinear_coeff''),
     (10, ''4_order_nonlinear_coeff''),
     (11, ''5_order_nonlinear_coeff''),
     (12, ''6_order_nonlinear_coeff''),
     (13, ''7_order_nonlinear_coeff''),
     (14, ''polynomial_order''),
     (15, ''bench_configuration''),
     (16, ''USB4000_config''),
     (17, ''autonull''),
     (18, ''baud_rate'')]"

definition config_regs :: "nat \<rightharpoonup> string" where
  "config_regs = map_of config_regs_alist"

subsection \<open>set_integration_time\<close>

text \<open>
  For an instance of \<open>int\<close>: clamp below at 10, then above at 65535000, send
  \<open>struct.pack('<BI', 0x02, dt)\<close> and return what the write returns. For anything else:
  fall through and return \<open>None\<close>.
\<close>

definition set_integration_time :: "py_value \<Rightarrow> usb \<Rightarrow> (py_error + py_value) \<times> usb" where
  "set_integration_time dt t =
     (if isinstance_int dt then
        (let dt1 = (if int_value dt < 10 then 10 else int_value dt);
             dt2 = (if dt1 > 65535000 then 65535000 else dt1)
         in pure_then (pack2 (pack_B 0x02) (pack_I dt2)) t (\<lambda>cmd.
            io_then (ep_write cmd_w cmd t) (\<lambda>n t1. (Inr (PyInt (int n)), t1))))
      else (Inr PyNone, t))"

subsection \<open>query_config\<close>

text \<open>
  \<open>bytes.decode('ascii', errors='ignore')\<close> drops every byte above 0x7F;
  \<open>.strip('\x00')\<close> drops the NUL characters at both ends.
\<close>

definition decode_ascii_ignore :: "u8 list \<Rightarrow> string" where
  "decode_ascii_ignore bs = map (\<lambda>b. char_of (unat b)) (filter (\<lambda>b. b < 0x80) bs)"

definition strip_nul :: "string \<Rightarrow> string" where
  "strip_nul s =
     rev (dropWhile (\<lambda>c. c = CHR 0x00) (rev (dropWhile (\<lambda>c. c = CHR 0x00) s)))"

text \<open>
  The body of \<open>for x in xrange(19)\<close>, over the indices still to do: send
  \<open>struct.pack('<2B', 0x05, x)\<close>, read 64 bytes, assert the echo \<open>resp[0:2]\<close>, look the
  register's name up and store the decoded value \<open>resp[2:]\<close> under it.
\<close>

fun query_loop ::
  "nat list \<Rightarrow> (string \<rightharpoonup> string) \<Rightarrow> usb \<Rightarrow> (py_error + (string \<rightharpoonup> string)) \<times> usb" where
  "query_loop [] config t = (Inr config, t)"
| "query_loop (x # xs) config t =
     pure_then (pack2 (pack_B 0x05) (pack_B (int x))) t (\<lambda>cmd.
     io_then (ep_write cmd_w cmd t) (\<lambda>n t1.
     io_then (ep_read cmd_r 64 1000 t1) (\<lambda>resp t2.
       if slice 0 2 resp \<noteq> [0x05, word_of_nat x] then (Inl AssertionError, t2)
       else (case config_regs x of
               None \<Rightarrow> (Inl KeyError, t2)
             | Some name \<Rightarrow>
                 query_loop xs
                   (config(name \<mapsto> strip_nul (decode_ascii_ignore (drop 2 resp)))) t2))))"

definition query_config :: "usb \<Rightarrow> (py_error + (string \<rightharpoonup> string)) \<times> usb" where
  "query_config t = query_loop [0..<19] Map.empty t"

subsection \<open>read_temp\<close>

text \<open>
  Sends \<open>struct.pack('<B', 0x6C)\<close>, reads 3 bytes, asserts \<open>resp[0:1] == bytearray([0x08])\<close>,
  unpacks \<open>resp[1:3]\<close> as \<open><h\<close> and returns the float \<open>t*0.003906\<close>.
\<close>

definition read_temp :: "usb \<Rightarrow> (py_error + rat) \<times> usb" where
  "read_temp t =
     pure_then (pack_B 0x6C) t (\<lambda>cmd.
     io_then (ep_write cmd_w cmd t) (\<lambda>n t1.
     io_then (ep_read cmd_r 3 1000 t1) (\<lambda>resp t2.
       if slice 0 1 resp \<noteq> [0x08] then (Inl AssertionError, t2)
       else pure_then (unpack_le_h (slice 1 3 resp)) t2 (\<lambda>tv.
            (Inr (float_mul (float_of_int tv) (binary64 (3906 / 1000000))), t2)))))"

subsection \<open>firmware_version\<close>

text \<open>
  Sends \<open>struct.pack('<2B', 0x6B, 0x04)\<close>, reads 3 bytes with a timeout of 200 ms, and
  unpacks \<open>resp[1:3]\<close> as \<open>>H\<close>. The echo assertion is commented out in the source.
\<close>

definition firmware_version :: "usb \<Rightarrow> (py_error + int) \<times> usb" where
  "firmware_version t =
     pure_then (pack2 (pack_B 0x6B) (pack_B 0x04)) t (\<lambda>cmd.
     io_then (ep_write cmd_w cmd t) (\<lambda>n t1.
     io_then (ep_read cmd_r 3 200 t1) (\<lambda>resp t2.
       (unpack_be_H (slice 1 3 resp), t2))))"

subsection \<open>set_trigger_mode\<close>

text \<open>
  For an instance of \<open>int\<close>: send \<open>struct.pack('<BH', 0x0A, mode)\<close> and return what the
  write returns. For anything else: fall through and return \<open>None\<close>.
\<close>

definition set_trigger_mode :: "py_value \<Rightarrow> usb \<Rightarrow> (py_error + py_value) \<times> usb" where
  "set_trigger_mode mode t =
     (if isinstance_int mode then
        pure_then (pack2 (pack_B 0x0A) (pack_H (int_value mode))) t (\<lambda>cmd.
        io_then (ep_write cmd_w cmd t) (\<lambda>n t1. (Inr (PyInt (int n)), t1)))
      else (Inr PyNone, t))"

subsection \<open>request_spectra\<close>

text \<open>
  Sends \<open>struct.pack('<B', 0x09)\<close>, reads \<open>512*4\<close> bytes from \<open>_spec_lo\<close>, \<open>512*11\<close> bytes
  from \<open>_spec_hi\<close> and 1 more byte from \<open>_spec_hi\<close>, asserts that this byte is 0x69, and
  fills an array of 3840 zeros: both buffers are converted first, then \<open>data[:1024]\<close> and
  \<open>data[1024:]\<close> are assigned in this order.
\<close>

definition request_spectra :: "usb \<Rightarrow> (py_error + u16 list) \<times> usb" where
  "request_spectra t =
     pure_then (pack_B 0x09) t (\<lambda>cmd.
     io_then (ep_write cmd_w cmd t) (\<lambda>n t1.
     io_then (ep_read spec_lo (512 * 4) 20 t1) (\<lambda>data_lo t2.
     io_then (ep_read spec_hi (512 * 11) 20 t2) (\<lambda>data_hi t3.
     io_then (ep_read spec_hi 1 20 t3) (\<lambda>data_sync t4.
     pure_then (unpack_B data_sync) t4 (\<lambda>sync.
       if sync \<noteq> 0x69 then (Inl AssertionError, t4)
       else (let data = replicate 3840 (0 :: u16) in
             pure_then (frombuffer_u2 data_lo) t4 (\<lambda>lo.
             pure_then (frombuffer_u2 data_hi) t4 (\<lambda>hi.
             pure_then (set_slice data 0 1024 lo) t4 (\<lambda>data1.
             pure_then (set_slice data1 1024 3840 hi) t4 (\<lambda>data2.
               (Inr data2, t4))))))))))))"

subsection \<open>get_status\<close>

text \<open>
  Sends \<open>struct.pack('<B', 0xFE)\<close>, reads 16 bytes and builds the dictionary, one
  \<open>struct.unpack\<close> per entry in the order of the source.
\<close>

definition get_status :: "usb \<Rightarrow> (py_error + (string \<rightharpoonup> py_value)) \<times> usb" where
  "get_status t =
     pure_then (pack_B 0xFE) t (\<lambda>cmd.
     io_then (ep_write cmd_w cmd t) (\<lambda>n t1.
     io_then (ep_read cmd_r 16 1000 t1) (\<lambda>resp t2.
     pure_then (unpack_le_H (slice 0 2 resp)) t2 (\<lambda>num_pixels.
     pure_then (unpack_le_I (slice 2 6 resp)) t2 (\<lambda>integration_time.
     pure_then (unpack_B (slice 6 7 resp)) t2 (\<lambda>lamp_enable.
     pure_then (unpack_B (slice 7 8 resp)) t2 (\<lambda>trigger_mode.
     pure_then (unpack_B (slice 8 9 resp)) t2 (\<lambda>acq_status.
     pure_then (unpack_B (slice 9 10 resp)) t2 (\<lambda>packets_in_spectra.
     pure_then (unpack_B (slice 10 11 resp)) t2 (\<lambda>power_down.
     pure_then (unpack_B (slice 11 12 resp)) t2 (\<lambda>packet_count.
     pure_then (unpack_B (slice 14 15 resp)) t2 (\<lambda>usb_speed.
       (Inr (map_of
          [(''num_pixels'', PyInt num_pixels),
           (''integration_time'', PyInt integration_time),
           (''lamp_enable'', PyBool (lamp_enable \<noteq> 0)),
           (''trigger_mode'', PyInt trigger_mode),
           (''acq_status'', PyInt acq_status),
           (''packets_in_spectra'', PyInt packets_in_spectra),
           (''power_down'', PyBool (power_down \<noteq> 0)),
           (''packet_count'', PyInt packet_count),
           (''usb_speed'', PyInt usb_speed)]), t2)))))))))))))"

section \<open>Simulated transports\<close>

text \<open>
  A transport at the start of a session, from its scripts: the outcomes of the writes, and
  the replies queued on the command-in, high-spectrum and low-spectrum endpoints.
\<close>

definition sim_usb ::
  "nat xfer list \<Rightarrow> u8 list xfer list \<Rightarrow> u8 list xfer list \<Rightarrow> u8 list xfer list \<Rightarrow> usb" where
  "sim_usb ws cmd_replies hi_replies lo_replies =
     \<lparr>out_q = ws,
      in_q = (\<lambda>ep. case ep of EP01 \<Rightarrow> [] | EP81 \<Rightarrow> cmd_replies
                              | EP82 \<Rightarrow> hi_replies | EP86 \<Rightarrow> lo_replies),
      trace = []\<rparr>"

text \<open>
  What a reply to the configuration query of register \<open>x\<close> can be: \<open>good_reply\<close> is a
  completed transfer of at most 64 bytes that starts with the echo \<open>05 x\<close>, \<open>bad_echo\<close> a
  completed transfer of at most 64 bytes that does not.
\<close>

definition good_reply :: "nat \<Rightarrow> u8 list xfer \<Rightarrow> bool" where
  "good_reply x r =
     (case r of
        Done resp \<Rightarrow> length resp \<le> 64 \<and> take 2 resp = [0x05, word_of_nat x]
      | Failed \<Rightarrow> False)"

definition bad_echo :: "nat \<Rightarrow> u8 list xfer \<Rightarrow> bool" where
  "bad_echo x r =
     (case r of
        Done resp \<Rightarrow> length resp \<le> 64 \<and> take 2 resp \<noteq> [0x05, word_of_nat x]
      | Failed \<Rightarrow> False)"

section \<open>Basic facts about the transport and the codecs\<close>

lemma ep_write_Done:
  "out_q t = Done n # q \<Longrightarrow>
   ep_write ep bs t = (Inr n, t\<lparr>trace := trace t @ [Write ep bs], out_q := q\<rparr>)"
  by (simp add: ep_write_def)

lemma ep_read_Done:
  "in_q t ep = Done bs # q \<Longrightarrow> length bs \<le> sz \<Longrightarrow>
   ep_read ep sz tmo t =
     (Inr bs, t\<lparr>trace := trace t @ [Read ep sz tmo], in_q := (in_q t)(ep := q)\<rparr>)"
  by (simp add: ep_read_def)

lemma trace_ep_write: "trace (snd (ep_write ep bs t)) = trace t @ [Write ep bs]"
  by (simp add: ep_write_def Let_def split: list.split xfer.split)

lemma pure_then_Inr: "pure_then (Inr v) t k = k v"
  by (simp add: pure_then_def)

lemma pure_then_Inl: "pure_then (Inl e) t k = (Inl e, t)"
  by (simp add: pure_then_def)

lemma io_then_Inr: "io_then (Inr v, t') k = k v t'"
  by (simp add: io_then_def)

lemma io_then_Inl: "io_then (Inl e, t') k = (Inl e, t')"
  by (simp add: io_then_def)

lemmas seq_simps = pure_then_Inr pure_then_Inl io_then_Inr io_then_Inl

lemma trace_write_only:
  "trace (snd (io_then (ep_write ep bs t) (\<lambda>n t1. (Inr (f n), t1)))) = trace t @ [Write ep bs]"
proof (cases "ep_write ep bs t")
  case (Pair r t')
  then have "trace t' = trace t @ [Write ep bs]"
    using trace_ep_write [of ep bs t] by simp
  with Pair show ?thesis by (cases r) (simp_all add: seq_simps)
qed

lemma pack_B_byte: "0 \<le> n \<Longrightarrow> n < 256 \<Longrightarrow> pack_B n = Inr [word_of_int n]"
  by (simp add: pack_B_def pack_le_def)

lemma pack2_Inr: "pack2 (Inr xs) (Inr ys) = Inr (xs @ ys)"
  by (simp add: pack2_def)

lemma pack_I_bytes:
  assumes "0 \<le> n" and "n < 4294967296"
  shows "pack_I n =
    Inr [word_of_int n, word_of_int (n div 2 ^ 8), word_of_int (n div 2 ^ 16),
         word_of_int (n div 2 ^ 24)]"
proof -
  have a: "n div 256 div 256 = n div 65536"
    using zdiv_zmult2_eq [of 256 n 256] by simp
  have b: "n div 65536 div 256 = n div 16777216"
    using zdiv_zmult2_eq [of 256 n 65536] by simp
  have c: "(word_of_int (k mod 256) :: u8) = word_of_int k" for k
    by (simp add: word_of_int_eq_iff take_bit_eq_mod)
  show ?thesis using assms
    by (simp add: pack_I_def pack_le_def numeral_eq_Suc a b c)
qed

section \<open>The setters\<close>

text \<open>
  Claim C6, as stated, fails: in Python 2 a \<open>long\<close> is an integer that is not an instance
  of \<open>int\<close>, and the guard \<open>isinstance(dt, int)\<close> sends it to the branch that writes
  nothing. For the long integer \<open>100000L\<close>, a value inside the valid range, no transfer is
  made and \<open>None\<close> is returned.
\<close>

theorem set_integration_time_long_counterexample:
  "trace (snd (set_integration_time (PyLong 100000) (sim_usb [Done 5] [] [] []))) = [] \<and>
   fst (set_integration_time (PyLong 100000) (sim_usb [Done 5] [] [] [])) = Inr PyNone"
  by (simp add: set_integration_time_def sim_usb_def)

text \<open>
  Claim C6, amended. For every instance \<open>dt\<close> of \<open>int\<close>, whatever the transport answers,
  \<open>set_integration_time\<close> performs exactly one transfer: a write to the command-out
  endpoint of five bytes, the opcode 0x02 and the four little-endian bytes of the clamped
  value (10 below 10, 65535000 above 65535000, \<open>dt\<close> itself in between). Nothing is read.
\<close>

theorem set_integration_time_clamps:
  assumes "isinstance_int dt"
  shows "trace (snd (set_integration_time dt t)) =
           trace t @
           [Write cmd_w
              (let c = (if int_value dt < 10 then 10
                        else if int_value dt > 65535000 then 65535000 else int_value dt)
               in [0x02, word_of_int c, word_of_int (c div 2 ^ 8), word_of_int (c div 2 ^ 16),
                   word_of_int (c div 2 ^ 24)])]"
  using assms
  by (simp add: set_integration_time_def pack_B_byte pack_I_bytes pack2_Inr seq_simps
      Let_def trace_write_only)

text \<open>5 is sent as 10, 70000000 as 65535000 = 0x03E7FC18, 100000 = 0x000186A0 as it is.\<close>

theorem set_integration_time_clamps_witness:
  "isinstance_int (PyInt 5) \<and>
   trace (snd (set_integration_time (PyInt 5) (sim_usb [Done 5] [] [] []))) =
     [Write cmd_w [0x02, 0x0A, 0x00, 0x00, 0x00]] \<and>
   trace (snd (set_integration_time (PyInt 70000000) (sim_usb [Done 5] [] [] []))) =
     [Write cmd_w [0x02, 0x18, 0xFC, 0xE7, 0x03]] \<and>
   trace (snd (set_integration_time (PyInt 100000) (sim_usb [Done 5] [] [] []))) =
     [Write cmd_w [0x02, 0xA0, 0x86, 0x01, 0x00]]"
  using set_integration_time_clamps [of "PyInt 5" "sim_usb [Done 5] [] [] []"]
    set_integration_time_clamps [of "PyInt 70000000" "sim_usb [Done 5] [] [] []"]
    set_integration_time_clamps [of "PyInt 100000" "sim_usb [Done 5] [] [] []"]
  by (simp add: sim_usb_def)

text \<open>
  Claim C10. For every argument that is not an instance of \<open>int\<close> (a \<open>long\<close>, a float, a
  string, \<open>None\<close>), \<open>set_integration_time\<close> and \<open>set_trigger_mode\<close> leave the transport as it
  was (no transfer, nothing consumed), raise nothing and return \<open>None\<close>.
\<close>

theorem non_integer_setters_noop:
  assumes "\<not> isinstance_int v"
  shows "set_integration_time v t = (Inr PyNone, t) \<and> set_trigger_mode v t = (Inr PyNone, t)"
  using assms by (simp add: set_integration_time_def set_trigger_mode_def)

theorem non_integer_setters_noop_witness:
  "\<not> isinstance_int (PyStr ''fast'') \<and>
   set_integration_time (PyStr ''fast'') (sim_usb [Done 5] [] [] []) =
     (Inr PyNone, sim_usb [Done 5] [] [] []) \<and>
   set_trigger_mode (PyStr ''fast'') (sim_usb [Done 5] [] [] []) =
     (Inr PyNone, sim_usb [Done 5] [] [] [])"
  using non_integer_setters_noop [of "PyStr ''fast''" "sim_usb [Done 5] [] [] []"]
  by simp

section \<open>The register decoders\<close>

text \<open>
  Claim C9. When the write succeeds and the device answers with three bytes
  \<open>b0 b1 b2\<close>, \<open>firmware_version\<close> has sent the two bytes 0x6B 0x04, has asked for 3 bytes
  on the command-in endpoint, and returns \<open>256 * b1 + b2\<close>, the unsigned big-endian
  reading of bytes 1 and 2, whatever \<open>b0\<close> is: byte 0 is not validated.
\<close>

theorem firmware_version_decodes:
  assumes "out_q t = Done n # ws" and "in_q t cmd_r = Done [b0, b1, b2] # rs"
  shows "fst (firmware_version t) = Inr (256 * uint b1 + uint b2) \<and>
         trace (snd (firmware_version t)) =
           trace t @ [Write cmd_w [0x6B, 0x04], Read cmd_r 3 200]"
  using assms
  by (simp add: firmware_version_def pack_B_byte pack2_Inr seq_simps ep_write_Done
      ep_read_Done unpack_be_H_def slice_def)

text \<open>The response \<open>04 01 2C\<close> decodes to 0x012C = 300.\<close>

theorem firmware_version_decodes_witness:
  "fst (firmware_version (sim_usb [Done 2] [Done [0x04, 0x01, 0x2C]] [] [])) = Inr 300"
  using firmware_version_decodes
    [of "sim_usb [Done 2] [Done [0x04, 0x01, 0x2C]] [] []" 2 "[]" "0x04" "0x01" "0x2C" "[]"]
  by (simp add: sim_usb_def cmd_r_def)

text \<open>
  Claim C7. When the write succeeds and the device answers with 16 bytes, \<open>get_status\<close>
  has sent the single byte 0xFE, has asked for 16 bytes on the command-in endpoint, and
  returns the dictionary decoded at the fixed little-endian offsets: bytes 0-1 the pixel
  count (key \<open>num_pixels\<close>), bytes 2-5 the integration time, byte 6 the lamp flag, bytes
  7, 8, 9 the trigger mode, the acquisition status and the packets per spectrum, byte 10
  the power-down flag, byte 11 the packet count, byte 14 the USB speed. Bytes 12, 13 and
  15 do not occur in the result.
\<close>

theorem get_status_decodes:
  assumes "out_q t = Done n # ws" and "in_q t cmd_r = Done resp # rs" and "length resp = 16"
  shows "fst (get_status t) = Inr (map_of
          [(''num_pixels'', PyInt (uint (resp ! 0) + 256 * uint (resp ! 1))),
           (''integration_time'',
              PyInt (uint (resp ! 2) + 256 * uint (resp ! 3) + 65536 * uint (resp ! 4)
                     + 16777216 * uint (resp ! 5))),
           (''lamp_enable'', PyBool (resp ! 6 \<noteq> 0)),
           (''trigger_mode'', PyInt (uint (resp ! 7))),
           (''acq_status'', PyInt (uint (resp ! 8))),
           (''packets_in_spectra'', PyInt (uint (resp ! 9))),
           (''power_down'', PyBool (resp ! 10 \<noteq> 0)),
           (''packet_count'', PyInt (uint (resp ! 11))),
           (''usb_speed'', PyInt (uint (resp ! 14)))]) \<and>
         trace (snd (get_status t)) = trace t @ [Write cmd_w [0xFE], Read cmd_r 16 1000]"
proof -
  from assms(3) obtain r0 r1 r2 r3 r4 r5 r6 r7 r8 r9 r10 r11 r12 r13 r14 r15
    where r: "resp = [r0, r1, r2, r3, r4, r5, r6, r7, r8, r9, r10, r11, r12, r13, r14, r15]"
    by (auto simp: length_Suc_conv numeral_eq_Suc)
  have q: "in_q t cmd_r =
      Done [r0, r1, r2, r3, r4, r5, r6, r7, r8, r9, r10, r11, r12, r13, r14, r15] # rs"
    using assms(2) r by simp
  show ?thesis
    unfolding r get_status_def
    using assms(1) q
    by (simp add: pack_B_byte seq_simps ep_write_Done ep_read_Done slice_def
        unpack_le_H_def unpack_le_I_def unpack_B_def uint_0_iff add.assoc)
qed

text \<open>The literal status block \<open>02 00 10 27 00 00 01 00 00 01 00 05 00 00 02 00\<close>.\<close>

theorem get_status_decodes_witness:
  "fst (get_status (sim_usb [Done 1]
          [Done [0x02, 0x00, 0x10, 0x27, 0x00, 0x00, 0x01, 0x00,
                 0x00, 0x01, 0x00, 0x05, 0x00, 0x00, 0x02, 0x00]] [] [])) =
   Inr (map_of
          [(''num_pixels'', PyInt 2),
           (''integration_time'', PyInt 10000),
           (''lamp_enable'', PyBool True),
           (''trigger_mode'', PyInt 0),
           (''acq_status'', PyInt 0),
           (''packets_in_spectra'', PyInt 1),
           (''power_down'', PyBool False),
           (''packet_count'', PyInt 5),
           (''usb_speed'', PyInt 2)])"
  using get_status_decodes
    [of "sim_usb [Done 1]
          [Done [0x02, 0x00, 0x10, 0x27, 0x00, 0x00, 0x01, 0x00,
                 0x00, 0x01, 0x00, 0x05, 0x00, 0x00, 0x02, 0x00]] [] []" 1 "[]"
        "[0x02, 0x00, 0x10, 0x27, 0x00, 0x00, 0x01, 0x00,
          0x00, 0x01, 0x00, 0x05, 0x00, 0x00, 0x02, 0x00]" "[]"]
  by (simp add: sim_usb_def cmd_r_def)

section \<open>The spectrum assembler\<close>

lemma length_le_u16s: "length (le_u16s bs) = length bs div 2"
  by (induction bs rule: le_u16s.induct) simp_all

lemma nth_le_u16s:
  "i < length bs div 2 \<Longrightarrow>
   le_u16s bs ! i = word_of_int (uint (bs ! (2 * i)) + 256 * uint (bs ! (2 * i + 1)))"
proof (induction bs arbitrary: i rule: le_u16s.induct)
  case (1 a b bs)
  then show ?case by (cases i) simp_all
qed simp_all

text \<open>
  What \<open>request_spectra\<close> does when its four transfers complete: the state \<open>t4\<close> after
  them, and the checks and the assembly that remain.
\<close>

lemma request_spectra_transfers:
  assumes "out_q t = Done n # ws"
    and "in_q t spec_lo = Done data_lo # ls" and "length data_lo \<le> 2048"
    and "in_q t spec_hi = Done data_hi # Done data_sync # hs" and "length data_hi \<le> 5632"
    and "length data_sync \<le> 1"
    and "t4 = t\<lparr>out_q := ws,
                 trace := trace t @ [Write cmd_w [0x09], Read spec_lo 2048 20,
                                     Read spec_hi 5632 20, Read spec_hi 1 20],
                 in_q := (in_q t)(spec_lo := ls, spec_hi := hs)\<rparr>"
  shows "request_spectra t =
            pure_then (unpack_B data_sync) t4 (\<lambda>sync.
              if sync \<noteq> 0x69 then (Inl AssertionError, t4)
              else (let data = replicate 3840 (0 :: u16) in
                    pure_then (frombuffer_u2 data_lo) t4 (\<lambda>lo.
                    pure_then (frombuffer_u2 data_hi) t4 (\<lambda>hi.
                    pure_then (set_slice data 0 1024 lo) t4 (\<lambda>data1.
                    pure_then (set_slice data1 1024 3840 hi) t4 (\<lambda>data2.
                      (Inr data2, t4)))))))"
  unfolding assms(7) using assms(1-6)
  by (simp add: request_spectra_def pack_B_byte seq_simps ep_write_Done ep_read_Done
      spec_lo_def spec_hi_def cong del: if_weak_cong)

lemma trace_request_spectra:
  assumes "out_q t = Done n # ws"
    and "in_q t spec_lo = Done data_lo # ls" and "length data_lo \<le> 2048"
    and "in_q t spec_hi = Done data_hi # Done data_sync # hs" and "length data_hi \<le> 5632"
    and "length data_sync \<le> 1"
  shows "trace (snd (request_spectra t)) =
           trace t @ [Write cmd_w [0x09], Read spec_lo 2048 20,
                      Read spec_hi 5632 20, Read spec_hi 1 20]"
  using request_spectra_transfers [OF assms refl]
  by (simp add: pure_then_def Let_def split: sum.split)

lemma byte_neq_uint: "(b :: u8) \<noteq> numeral k \<Longrightarrow> uint b \<noteq> uint (numeral k :: u8)"
  by (simp add: word_uint_eq_iff)

text \<open>
  Claim C1. When the request is written, the low channel delivers 2048 bytes, the high
  channel 5632 bytes and then the sync byte 0x69, \<open>request_spectra\<close> returns an array of
  exactly 3840 samples: sample \<open>i\<close> below 1024 is the little-endian 16-bit reading of bytes
  \<open>2i\<close> and \<open>2i+1\<close> of the low buffer, sample \<open>1024 + i\<close> that of bytes \<open>2i\<close> and \<open>2i+1\<close> of
  the high buffer. Nothing is reordered or scaled.
\<close>

theorem request_spectra_assembles:
  assumes "out_q t = Done n # ws"
    and "in_q t spec_lo = Done data_lo # ls" and "length data_lo = 2048"
    and "in_q t spec_hi = Done data_hi # Done [0x69] # hs" and "length data_hi = 5632"
  shows "\<exists>data. fst (request_spectra t) = Inr data \<and> length data = 3840 \<and>
           (\<forall>i<1024. data ! i =
              word_of_int (uint (data_lo ! (2 * i)) + 256 * uint (data_lo ! (2 * i + 1)))) \<and>
           (\<forall>i<2816. data ! (1024 + i) =
              word_of_int (uint (data_hi ! (2 * i)) + 256 * uint (data_hi ! (2 * i + 1))))"
proof -
  let ?lo = "le_u16s data_lo" and ?hi = "le_u16s data_hi"
  have llo: "length ?lo = 1024" and lhi: "length ?hi = 2816"
    using assms(3,5) by (simp_all add: length_le_u16s)
  have lo: "frombuffer_u2 data_lo = Inr ?lo" and hi: "frombuffer_u2 data_hi = Inr ?hi"
    using assms(3,5) by (simp_all add: frombuffer_u2_def)
  have s1: "set_slice (replicate 3840 (0 :: u16)) 0 1024 ?lo = Inr (?lo @ replicate 2816 0)"
    using llo by (simp add: set_slice_def)
  have s2: "set_slice (?lo @ replicate 2816 0) 1024 3840 ?hi = Inr (?lo @ ?hi)"
    using llo lhi by (simp add: set_slice_def)
  have res: "fst (request_spectra t) = Inr (?lo @ ?hi)"
    using request_spectra_transfers [OF assms(1,2) _ assms(4) _ _ refl] assms(3,5)
    by (simp add: unpack_B_def seq_simps lo hi s1 s2)
  have a: "\<forall>i<1024. (?lo @ ?hi) ! i =
      word_of_int (uint (data_lo ! (2 * i)) + 256 * uint (data_lo ! (2 * i + 1)))"
    using llo assms(3) by (simp add: nth_append nth_le_u16s)
  have b: "\<forall>i<2816. (?lo @ ?hi) ! (1024 + i) =
      word_of_int (uint (data_hi ! (2 * i)) + 256 * uint (data_hi ! (2 * i + 1)))"
    using llo assms(5) by (simp add: nth_append nth_le_u16s)
  show ?thesis using res a b llo lhi by simp
qed

text \<open>
  A low buffer that starts with \<open>34 12\<close> and a high buffer that starts with \<open>CD AB\<close>:
  sample 0 is 0x1234 and sample 1024 is 0xABCD.
\<close>

theorem request_spectra_assembles_witness:
  "\<exists>data. fst (request_spectra (sim_usb [Done 1] []
              [Done (0xCD # 0xAB # replicate 5630 0), Done [0x69]]
              [Done (0x34 # 0x12 # replicate 2046 0)])) = Inr data \<and>
          length data = 3840 \<and> data ! 0 = 0x1234 \<and> data ! 1024 = 0xABCD"
proof -
  let ?t = "sim_usb [Done 1] []
              [Done (0xCD # 0xAB # replicate 5630 0), Done [0x69]]
              [Done (0x34 # 0x12 # replicate 2046 0)]"
  have h1: "out_q ?t = Done 1 # []" by (simp add: sim_usb_def)
  have h2: "in_q ?t spec_lo = Done (0x34 # 0x12 # replicate 2046 0) # []"
    by (simp add: sim_usb_def spec_lo_def)
  have h3: "length (0x34 # 0x12 # replicate 2046 (0 :: u8)) = 2048" by simp
  have h4: "in_q ?t spec_hi = Done (0xCD # 0xAB # replicate 5630 0) # Done [0x69] # []"
    by (simp add: sim_usb_def spec_hi_def)
  have h5: "length (0xCD # 0xAB # replicate 5630 (0 :: u8)) = 5632" by simp
  from request_spectra_assembles [OF h1 h2 h3 h4 h5]
  obtain data where d: "fst (request_spectra ?t) = Inr data" "length data = 3840"
    and lo: "\<forall>i<1024. data ! i =
        word_of_int (uint ((0x34 # 0x12 # replicate 2046 (0 :: u8)) ! (2 * i))
          + 256 * uint ((0x34 # 0x12 # replicate 2046 (0 :: u8)) ! (2 * i + 1)))"
    and hi: "\<forall>i<2816. data ! (1024 + i) =
        word_of_int (uint ((0xCD # 0xAB # replicate 5630 (0 :: u8)) ! (2 * i))
          + 256 * uint ((0xCD # 0xAB # replicate 5630 (0 :: u8)) ! (2 * i + 1)))"
    by blast
  have "data ! 0 = 0x1234" using spec [OF lo, of 0] by simp
  moreover have "data ! 1024 = 0xABCD" using spec [OF hi, of 0] by simp
  ultimately show ?thesis using d by blast
qed

text \<open>
  Claim C2. When the request is written and both segment reads complete, and the read of
  one byte that follows on the high channel returns a byte other than 0x69,
  \<open>request_spectra\<close> raises \<open>AssertionError\<close>, whatever the two segments hold.
\<close>

theorem request_spectra_bad_sync:
  assumes "out_q t = Done n # ws"
    and "in_q t spec_lo = Done data_lo # ls" and "length data_lo \<le> 2048"
    and "in_q t spec_hi = Done data_hi # Done [b] # hs" and "length data_hi \<le> 5632"
    and "b \<noteq> 0x69"
  shows "fst (request_spectra t) = Inl AssertionError"
proof -
  have "uint b \<noteq> 0x69"
    using byte_neq_uint [OF assms(6)] by simp
  then show ?thesis
    using request_spectra_transfers [OF assms(1-5) _ refl]
    by (simp add: unpack_B_def seq_simps)
qed

theorem request_spectra_bad_sync_witness:
  "fst (request_spectra (sim_usb [Done 1] []
          [Done (replicate 5632 0), Done [0x68]] [Done (replicate 2048 0)])) =
   Inl AssertionError"
proof -
  let ?t = "sim_usb [Done 1] [] [Done (replicate 5632 0), Done [0x68]] [Done (replicate 2048 0)]"
  have h1: "out_q ?t = Done 1 # []" by (simp add: sim_usb_def)
  have h2: "in_q ?t spec_lo = Done (replicate 2048 0) # []"
    by (simp add: sim_usb_def spec_lo_def)
  have h3: "length (replicate 2048 (0 :: u8)) \<le> 2048" by simp
  have h4: "in_q ?t spec_hi = Done (replicate 5632 0) # Done [0x68] # []"
    by (simp add: sim_usb_def spec_hi_def)
  have h5: "length (replicate 5632 (0 :: u8)) \<le> 5632" by simp
  have h6: "(0x68 :: u8) \<noteq> 0x69" by simp
  show ?thesis by (rule request_spectra_bad_sync [OF h1 h2 h3 h4 h5 h6])
qed

text \<open>
  Claim C3, as stated, fails: the low channel is read with a size of \<open>512*4 = 2048\<close>
  bytes, which are the 1024 samples, not 4096. On a transport that delivers 2048 and 5632
  bytes and the sync byte, the transfers are the following, and no read of 4096 bytes from
  the low channel is among them.
\<close>

theorem request_spectra_low_size_counterexample:
  "trace (snd (request_spectra (sim_usb [Done 1] []
      [Done (replicate 5632 0), Done [0x69]] [Done (replicate 2048 0)]))) =
     [Write cmd_w [0x09], Read spec_lo 2048 20, Read spec_hi 5632 20, Read spec_hi 1 20] \<and>
   Read spec_lo 4096 20 \<notin> set (trace (snd (request_spectra (sim_usb [Done 1] []
      [Done (replicate 5632 0), Done [0x69]] [Done (replicate 2048 0)]))))"
proof -
  let ?t = "sim_usb [Done 1] [] [Done (replicate 5632 0), Done [0x69]] [Done (replicate 2048 0)]"
  have h1: "out_q ?t = Done 1 # []" by (simp add: sim_usb_def)
  have h2: "in_q ?t spec_lo = Done (replicate 2048 0) # []"
    by (simp add: sim_usb_def spec_lo_def)
  have h3: "length (replicate 2048 (0 :: u8)) \<le> 2048" by simp
  have h4: "in_q ?t spec_hi = Done (replicate 5632 0) # Done [0x69] # []"
    by (simp add: sim_usb_def spec_hi_def)
  have h5: "length (replicate 5632 (0 :: u8)) \<le> 5632" by simp
  have h6: "length [0x69 :: u8] \<le> 1" by simp
  have "trace (snd (request_spectra ?t)) =
     [Write cmd_w [0x09], Read spec_lo 2048 20, Read spec_hi 5632 20, Read spec_hi 1 20]"
    using trace_request_spectra [OF h1 h2 h3 h4 h5 h6] by (simp add: sim_usb_def)
  then show ?thesis by (simp add: spec_lo_def spec_hi_def)
qed

text \<open>
  Claim C3, amended. When its transfers complete, \<open>request_spectra\<close> performs exactly
  these, in this order: the write of the request 0x09, a read of 2048 bytes (1024 samples)
  from the low channel, a read of 5632 bytes (2816 samples) from the high channel, and
  the read of the sync byte from the high channel; each read has a timeout of 20 ms.
\<close>

theorem request_spectra_transfer_order:
  assumes "out_q t = Done n # ws"
    and "in_q t spec_lo = Done data_lo # ls" and "length data_lo \<le> 2048"
    and "in_q t spec_hi = Done data_hi # Done data_sync # hs" and "length data_hi \<le> 5632"
    and "length data_sync \<le> 1"
  shows "trace (snd (request_spectra t)) =
           trace t @ [Write cmd_w [0x09], Read spec_lo 2048 20,
                      Read spec_hi 5632 20, Read spec_hi 1 20]"
  using assms by (rule trace_request_spectra)

theorem request_spectra_transfer_order_witness:
  "trace (snd (request_spectra (sim_usb [Done 1] []
      [Done (replicate 5632 7), Done [0x69]] [Done (replicate 2048 3)]))) =
     [Write cmd_w [0x09], Read spec_lo 2048 20, Read spec_hi 5632 20, Read spec_hi 1 20]"
proof -
  let ?t = "sim_usb [Done 1] [] [Done (replicate 5632 7), Done [0x69]] [Done (replicate 2048 3)]"
  have h1: "out_q ?t = Done 1 # []" by (simp add: sim_usb_def)
  have h2: "in_q ?t spec_lo = Done (replicate 2048 3) # []"
    by (simp add: sim_usb_def spec_lo_def)
  have h3: "length (replicate 2048 (3 :: u8)) \<le> 2048" by simp
  have h4: "in_q ?t spec_hi = Done (replicate 5632 7) # Done [0x69] # []"
    by (simp add: sim_usb_def spec_hi_def)
  have h5: "length (replicate 5632 (7 :: u8)) \<le> 5632" by simp
  have h6: "length [0x69 :: u8] \<le> 1" by simp
  show ?thesis
    using request_spectra_transfer_order [OF h1 h2 h3 h4 h5 h6] by (simp add: sim_usb_def)
qed

section \<open>The configuration query\<close>

lemma config_regs_total: "x < 19 \<Longrightarrow> \<exists>name. config_regs x = Some name"
proof -
  assume "x < 19"
  then have "x = 0 \<or> x = 1 \<or> x = 2 \<or> x = 3 \<or> x = 4 \<or> x = 5 \<or> x = 6 \<or> x = 7 \<or> x = 8
      \<or> x = 9 \<or> x = 10 \<or> x = 11 \<or> x = 12 \<or> x = 13 \<or> x = 14 \<or> x = 15 \<or> x = 16
      \<or> x = 17 \<or> x = 18"
    by arith
  then have "x \<in> fst ` set config_regs_alist"
    unfolding config_regs_alist_def by force
  then show ?thesis
    unfolding config_regs_def by (metis map_of_eq_None_iff not_None_eq)
qed

text \<open>One pass through the loop body, when the write and the read complete.\<close>

lemma query_loop_step:
  assumes "x < 19" and "out_q t = Done n # ws" and "in_q t cmd_r = Done resp # rs"
    and "length resp \<le> 64"
  shows "query_loop (x # xs) cfg t =
     (if take 2 resp \<noteq> [0x05, word_of_nat x]
      then (Inl AssertionError,
            t\<lparr>out_q := ws,
              trace := trace t @ [Write cmd_w [0x05, word_of_nat x], Read cmd_r 64 1000],
              in_q := (in_q t)(cmd_r := rs)\<rparr>)
      else query_loop xs
             (cfg(the (config_regs x) \<mapsto> strip_nul (decode_ascii_ignore (drop 2 resp))))
             (t\<lparr>out_q := ws,
                trace := trace t @ [Write cmd_w [0x05, word_of_nat x], Read cmd_r 64 1000],
                in_q := (in_q t)(cmd_r := rs)\<rparr>))"
proof -
  obtain name where name: "config_regs x = Some name"
    using config_regs_total [OF assms(1)] by blast
  have p: "pack2 (pack_B 0x05) (pack_B (int x)) = Inr [0x05, word_of_nat x]"
    using assms(1) by (simp add: pack_B_byte pack2_Inr)
  show ?thesis
    using assms(2-4)
    by (simp add: p name seq_simps ep_write_Done ep_read_Done slice_def
        cong del: if_weak_cong)
qed

text \<open>The loop over any indices below 19, on replies that all carry their echo.\<close>

lemma query_loop_good:
  assumes "length xs \<le> length (out_q t)" and "length xs \<le> length (in_q t cmd_r)"
    and "\<forall>i<length xs. out_q t ! i \<noteq> Failed \<and> good_reply (xs ! i) (in_q t cmd_r ! i)"
    and "\<forall>x\<in>set xs. x < 19"
  shows "\<exists>cfg'. fst (query_loop xs cfg t) = Inr cfg' \<and>
           dom cfg' = dom cfg \<union> (\<lambda>x. the (config_regs x)) ` set xs"
  using assms
proof (induction xs arbitrary: cfg t)
  case Nil
  then show ?case by simp
next
  case (Cons x xs)
  from Cons.prems(1) obtain w ws where ws: "out_q t = w # ws"
    by (cases "out_q t") auto
  from Cons.prems(2) obtain r rs where rs: "in_q t cmd_r = r # rs"
    by (cases "in_q t cmd_r") auto
  from Cons.prems(3) have "w \<noteq> Failed" and "good_reply x r"
    using ws rs by auto
  then obtain n resp where w: "w = Done n" and r: "r = Done resp"
    and len: "length resp \<le> 64" and echo: "take 2 resp = [0x05, word_of_nat x]"
    by (cases w; cases r) (auto simp: good_reply_def)
  from Cons.prems(4) have x: "x < 19" by simp
  let ?t2 = "t\<lparr>out_q := ws,
      trace := trace t @ [Write cmd_w [0x05, word_of_nat x], Read cmd_r 64 1000],
      in_q := (in_q t)(cmd_r := rs)\<rparr>"
  let ?cfg = "cfg(the (config_regs x) \<mapsto> strip_nul (decode_ascii_ignore (drop 2 resp)))"
  have step: "query_loop (x # xs) cfg t = query_loop xs ?cfg ?t2"
    using query_loop_step [OF x, of t n ws resp rs xs cfg] ws rs w r len echo by simp
  have "\<exists>cfg'. fst (query_loop xs ?cfg ?t2) = Inr cfg' \<and>
           dom cfg' = dom ?cfg \<union> (\<lambda>x. the (config_regs x)) ` set xs"
  proof (rule Cons.IH)
    show "length xs \<le> length (out_q ?t2)" using Cons.prems(1) ws by simp
    show "length xs \<le> length (in_q ?t2 cmd_r)" using Cons.prems(2) rs by simp
    show "\<forall>i<length xs. out_q ?t2 ! i \<noteq> Failed \<and> good_reply (xs ! i) (in_q ?t2 cmd_r ! i)"
      using Cons.prems(3) ws rs by auto
    show "\<forall>x\<in>set xs. x < 19" using Cons.prems(4) by simp
  qed
  then show ?case unfolding step by auto
qed

text \<open>The loop when the reply number \<open>k\<close> is the first without its echo.\<close>

lemma query_loop_bad:
  assumes "k < length xs"
    and "\<forall>i\<le>k. i < length (out_q t) \<and> out_q t ! i \<noteq> Failed \<and> i < length (in_q t cmd_r)"
    and "\<forall>i<k. good_reply (xs ! i) (in_q t cmd_r ! i)"
    and "bad_echo (xs ! k) (in_q t cmd_r ! k)"
    and "\<forall>x\<in>set xs. x < 19"
  shows "fst (query_loop xs cfg t) = Inl AssertionError"
  using assms
proof (induction xs arbitrary: k cfg t)
  case Nil
  then show ?case by simp
next
  case (Cons x xs)
  from Cons.prems(2) have "0 < length (out_q t)" and "0 < length (in_q t cmd_r)"
    and "out_q t ! 0 \<noteq> Failed"
    by auto
  then obtain n ws r rs where ws: "out_q t = Done n # ws" and rs: "in_q t cmd_r = r # rs"
    by (cases "out_q t"; cases "in_q t cmd_r"; cases "hd (out_q t)") auto
  from Cons.prems(5) have x: "x < 19" by simp
  show ?case
  proof (cases k)
    case 0
    with Cons.prems(4) rs obtain resp where r: "r = Done resp"
      and len: "length resp \<le> 64" and echo: "take 2 resp \<noteq> [0x05, word_of_nat x]"
      by (cases r) (auto simp: bad_echo_def)
    show ?thesis
      using query_loop_step [OF x, of t n ws resp rs xs cfg] ws rs r len echo by simp
  next
    case (Suc j)
    with Cons.prems(3) rs have "good_reply x r" by auto
    then obtain resp where r: "r = Done resp"
      and len: "length resp \<le> 64" and echo: "take 2 resp = [0x05, word_of_nat x]"
      by (cases r) (auto simp: good_reply_def)
    let ?t2 = "t\<lparr>out_q := ws,
        trace := trace t @ [Write cmd_w [0x05, word_of_nat x], Read cmd_r 64 1000],
        in_q := (in_q t)(cmd_r := rs)\<rparr>"
    let ?cfg = "cfg(the (config_regs x) \<mapsto> strip_nul (decode_ascii_ignore (drop 2 resp)))"
    have step: "query_loop (x # xs) cfg t = query_loop xs ?cfg ?t2"
      using query_loop_step [OF x, of t n ws resp rs xs cfg] ws rs r len echo by simp
    have "fst (query_loop xs ?cfg ?t2) = Inl AssertionError"
    proof (rule Cons.IH [of j])
      show "j < length xs" using Cons.prems(1) Suc by simp
      show "\<forall>i\<le>j. i < length (out_q ?t2) \<and> out_q ?t2 ! i \<noteq> Failed
              \<and> i < length (in_q ?t2 cmd_r)"
      proof (intro allI impI)
        fix i assume "i \<le> j"
        then have "Suc i \<le> k" using Suc by simp
        with Cons.prems(2) have "Suc i < length (out_q t) \<and> out_q t ! Suc i \<noteq> Failed
              \<and> Suc i < length (in_q t cmd_r)"
          by blast
        then show "i < length (out_q ?t2) \<and> out_q ?t2 ! i \<noteq> Failed
              \<and> i < length (in_q ?t2 cmd_r)"
          using ws rs by simp
      qed
      show "\<forall>i<j. good_reply (xs ! i) (in_q ?t2 cmd_r ! i)"
        using Cons.prems(3) rs Suc by auto
      show "bad_echo (xs ! j) (in_q ?t2 cmd_r ! j)" using Cons.prems(4) rs Suc by simp
      show "\<forall>x\<in>set xs. x < 19" using Cons.prems(5) by simp
    qed
    then show ?thesis unfolding step .
  qed
qed

lemma register_names: "map (\<lambda>x. the (config_regs x)) [0..<19] = map snd config_regs_alist"
  by code_simp

lemma register_names_distinct: "distinct (map snd config_regs_alist)"
  by code_simp

text \<open>
  Claim C5. If each of the 19 writes completes and the reply to each register query
  \<open>x = 0..18\<close> starts with the echo \<open>05 x\<close>, \<open>query_config\<close> returns a dictionary whose
  keys are exactly the 19 register names of the table. If the exchanges before register
  \<open>k\<close> are of this kind and the reply to register \<open>k\<close> does not start with \<open>05 k\<close>,
  \<open>query_config\<close> raises \<open>AssertionError\<close>: the caller gets no dictionary at all.
\<close>

theorem query_config_all_or_nothing:
  "((\<forall>x<19. x < length (out_q t) \<and> out_q t ! x \<noteq> Failed \<and>
            x < length (in_q t cmd_r) \<and> good_reply x (in_q t cmd_r ! x))
      \<longrightarrow> (\<exists>config. fst (query_config t) = Inr config \<and>
             dom config = snd ` set config_regs_alist \<and> card (dom config) = 19))
   \<and>
   (k < 19 \<and>
      (\<forall>x\<le>k. x < length (out_q t) \<and> out_q t ! x \<noteq> Failed \<and> x < length (in_q t cmd_r)) \<and>
      (\<forall>x<k. good_reply x (in_q t cmd_r ! x)) \<and> bad_echo k (in_q t cmd_r ! k)
      \<longrightarrow> fst (query_config t) = Inl AssertionError)"
proof (intro conjI impI)
  assume a: "\<forall>x<19. x < length (out_q t) \<and> out_q t ! x \<noteq> Failed \<and>
            x < length (in_q t cmd_r) \<and> good_reply x (in_q t cmd_r ! x)"
  then have l1: "length [0..<19] \<le> length (out_q t)"
    and l2: "length [0..<19] \<le> length (in_q t cmd_r)"
    by (auto simp: Suc_le_eq numeral_eq_Suc)
  have "\<exists>cfg'. fst (query_loop [0..<19] Map.empty t) = Inr cfg' \<and>
           dom cfg' = dom (Map.empty :: string \<rightharpoonup> string)
             \<union> (\<lambda>x. the (config_regs x)) ` set [0..<19]"
    by (rule query_loop_good [OF l1 l2]) (use a in auto)
  then obtain config where c: "fst (query_config t) = Inr config"
    and d: "dom config = (\<lambda>x. the (config_regs x)) ` set [0..<19]"
    unfolding query_config_def by auto
  have d': "dom config = set (map snd config_regs_alist)"
    using d register_names by (metis set_map)
  have "card (dom config) = 19"
    unfolding d' using distinct_card [OF register_names_distinct]
    by (simp add: config_regs_alist_def)
  with c d' show "\<exists>config. fst (query_config t) = Inr config \<and>
             dom config = snd ` set config_regs_alist \<and> card (dom config) = 19"
    by auto
next
  assume b: "k < 19 \<and>
      (\<forall>x\<le>k. x < length (out_q t) \<and> out_q t ! x \<noteq> Failed \<and> x < length (in_q t cmd_r)) \<and>
      (\<forall>x<k. good_reply x (in_q t cmd_r ! x)) \<and> bad_echo k (in_q t cmd_r ! k)"
  show "fst (query_config t) = Inl AssertionError"
    unfolding query_config_def
    by (rule query_loop_bad [of k]) (use b in auto)
qed

text \<open>
  A device that echoes every query, and one whose second reply echoes register 7 instead
  of register 1.
\<close>

theorem query_config_all_or_nothing_witness:
  "(\<exists>config. fst (query_config (sim_usb (replicate 19 (Done 2))
        (map (\<lambda>x. Done [0x05, word_of_nat x, 0x41, 0x00]) [0..<19]) [] [])) = Inr config \<and>
      dom config = snd ` set config_regs_alist \<and> card (dom config) = 19) \<and>
   fst (query_config (sim_usb [Done 2, Done 2]
        [Done [0x05, 0x00, 0x41], Done [0x05, 0x07, 0x41]] [] [])) = Inl AssertionError"
proof -
  let ?good = "sim_usb (replicate 19 (Done 2))
        (map (\<lambda>x. Done [0x05, word_of_nat x, 0x41, 0x00]) [0..<19]) [] []"
  let ?bad = "sim_usb [Done 2, Done 2]
        [Done [0x05, 0x00, 0x41], Done [0x05, 0x07, 0x41]] [] []"
  have g: "\<forall>x<19. x < length (out_q ?good) \<and> out_q ?good ! x \<noteq> Failed \<and>
            x < length (in_q ?good cmd_r) \<and> good_reply x (in_q ?good cmd_r ! x)"
    by (simp add: sim_usb_def cmd_r_def good_reply_def)
  have b: "(1 :: nat) < 19 \<and>
      (\<forall>x\<le>1. x < length (out_q ?bad) \<and> out_q ?bad ! x \<noteq> Failed
          \<and> x < length (in_q ?bad cmd_r)) \<and>
      (\<forall>x<1. good_reply x (in_q ?bad cmd_r ! x)) \<and> bad_echo 1 (in_q ?bad cmd_r ! 1)"
    by (auto simp: sim_usb_def cmd_r_def good_reply_def bad_echo_def le_Suc_eq)
  show ?thesis
    using query_config_all_or_nothing [of ?good 0] query_config_all_or_nothing [of ?bad 1] g b
    by blast
qed

section \<open>Echo validation\<close>

text \<open>What \<open>read_temp\<close> does when its write and its read complete.\<close>

lemma read_temp_transfers:
  assumes "out_q t = Done n # ws" and "in_q t cmd_r = Done resp # rs" and "length resp \<le> 3"
  shows "read_temp t =
     (if take 1 resp \<noteq> [0x08] then Inl AssertionError
      else case unpack_le_h (slice 1 3 resp) of
             Inl e \<Rightarrow> Inl e
           | Inr tv \<Rightarrow> Inr (float_mul (float_of_int tv) (binary64 (3906 / 1000000))),
      t\<lparr>out_q := ws,
        trace := trace t @ [Write cmd_w [0x6C], Read cmd_r 3 1000],
        in_q := (in_q t)(cmd_r := rs)\<rparr>)"
  using assms
  by (simp add: read_temp_def pack_B_byte seq_simps ep_write_Done ep_read_Done pure_then_def
      slice_def split: sum.split)

text \<open>
  Claim C4, as stated, fails for \<open>read_temp\<close>: it sends the opcode 0x6C, and a response
  whose first byte is that opcode is rejected, while a response whose first byte is 0x08
  is accepted.
\<close>

theorem read_temp_echo_counterexample:
  "fst (read_temp (sim_usb [Done 1] [Done [0x6C, 0x00, 0x00]] [] [])) = Inl AssertionError \<and>
   trace (snd (read_temp (sim_usb [Done 1] [Done [0x6C, 0x00, 0x00]] [] []))) =
     [Write cmd_w [0x6C], Read cmd_r 3 1000] \<and>
   fst (read_temp (sim_usb [Done 1] [Done [0x08, 0x00, 0x00]] [] [])) = Inr 0"
proof -
  have a: "out_q (sim_usb [Done 1] cr [] []) = Done 1 # []"
    and b: "in_q (sim_usb [Done 1] [Done resp] [] []) cmd_r = Done resp # []" for cr resp
    by (simp_all add: sim_usb_def cmd_r_def)
  have z: "float_mul (float_of_int 0) d = 0" for d
    by (simp add: float_mul_def float_of_int_def binary64_def)
  show ?thesis
    using read_temp_transfers [OF a b, of "[0x6C, 0x00, 0x00]"]
      read_temp_transfers [OF a b, of "[0x08, 0x00, 0x00]"]
    by (simp add: sim_usb_def slice_def unpack_le_h_def z)
qed

text \<open>
  Claim C4, amended. When the write and the read of the exchange complete: the
  configuration query of register \<open>x\<close> sends \<open>05 x\<close>, reads 64 bytes, raises
  \<open>AssertionError\<close> if the first two bytes of the response are not \<open>05 x\<close> and goes on to
  the next register otherwise; \<open>read_temp\<close> sends 0x6C, reads 3 bytes, and raises
  \<open>AssertionError\<close> exactly when the first byte of the response is not the fixed value
  0x08, which is not the opcode it sent.
\<close>

theorem echo_validation:
  assumes "out_q t = Done n # ws" and "in_q t cmd_r = Done resp # rs"
  shows "(x < 19 \<and> length resp \<le> 64 \<longrightarrow>
           (let t2 = t\<lparr>out_q := ws,
                        trace := trace t @
                          [Write cmd_w [0x05, word_of_nat x], Read cmd_r 64 1000],
                        in_q := (in_q t)(cmd_r := rs)\<rparr>
            in query_loop (x # xs) cfg t =
                 (if take 2 resp \<noteq> [0x05, word_of_nat x] then (Inl AssertionError, t2)
                  else query_loop xs
                         (cfg(the (config_regs x) \<mapsto>
                              strip_nul (decode_ascii_ignore (drop 2 resp)))) t2)))
       \<and> (length resp \<le> 3 \<longrightarrow>
            trace (snd (read_temp t)) = trace t @ [Write cmd_w [0x6C], Read cmd_r 3 1000] \<and>
            (fst (read_temp t) = Inl AssertionError \<longleftrightarrow> take 1 resp \<noteq> [0x08]))"
proof (intro conjI impI)
  assume "x < 19 \<and> length resp \<le> 64"
  then show "let t2 = t\<lparr>out_q := ws,
                        trace := trace t @
                          [Write cmd_w [0x05, word_of_nat x], Read cmd_r 64 1000],
                        in_q := (in_q t)(cmd_r := rs)\<rparr>
            in query_loop (x # xs) cfg t =
                 (if take 2 resp \<noteq> [0x05, word_of_nat x] then (Inl AssertionError, t2)
                  else query_loop xs
                         (cfg(the (config_regs x) \<mapsto>
                              strip_nul (decode_ascii_ignore (drop 2 resp)))) t2)"
    unfolding Let_def using query_loop_step [OF _ assms, of x xs cfg] by blast
next
  assume l: "length resp \<le> 3"
  show "trace (snd (read_temp t)) = trace t @ [Write cmd_w [0x6C], Read cmd_r 3 1000]"
    using read_temp_transfers [OF assms l] by simp
next
  assume l: "length resp \<le> 3"
  show "fst (read_temp t) = Inl AssertionError \<longleftrightarrow> take 1 resp \<noteq> [0x08]"
    using read_temp_transfers [OF assms l]
    by (simp add: unpack_le_h_def split: sum.split)
qed

theorem echo_validation_witness:
  "fst (read_temp (sim_usb [Done 2] [Done [0x05, 0x03, 0x41]] [] [])) = Inl AssertionError \<and>
   fst (query_loop [3] Map.empty (sim_usb [Done 2] [Done [0x05, 0x03, 0x41]] [] [])) =
     Inr [''2_order_wavelength_coeff'' \<mapsto> ''A''] \<and>
   fst (query_loop [4] Map.empty (sim_usb [Done 2] [Done [0x05, 0x03, 0x41]] [] [])) =
     Inl AssertionError"
proof -
  let ?t = "sim_usb [Done 2] [Done [0x05, 0x03, 0x41]] [] []"
  have a: "out_q ?t = Done 2 # []" and b: "in_q ?t cmd_r = Done [0x05, 0x03, 0x41] # []"
    by (simp_all add: sim_usb_def cmd_r_def)
  have c: "strip_nul (decode_ascii_ignore [0x41]) = ''A''" by code_simp
  have d: "config_regs 3 = Some ''2_order_wavelength_coeff''"
    by (simp add: config_regs_def config_regs_alist_def)
  show ?thesis
    using echo_validation [OF a b, of 3 "[]" Map.empty]
      echo_validation [OF a b, of 4 "[]" Map.empty]
    by (simp add: Let_def c d)
qed

section \<open>The rounding of Python floats\<close>

text \<open>
  \<open>ilog2\<close> is the floor of the binary logarithm, so \<open>binary64 x\<close> is a multiple of the
  spacing of the doubles around \<open>x\<close>, at most half a spacing away from \<open>x\<close>; it keeps the
  sign of \<open>x\<close>, and it is exact on the integers below \<open>2\<^sup>5\<^sup>3\<close>.
\<close>

lemma pow2_powi: "pow2 e = 2 powi e"
  by (simp add: pow2_def power_int_def power_one_over)

lemma pow2_pos: "0 < pow2 e"
  by (simp add: pow2_powi)

lemma pow2_mono: "a \<le> b \<Longrightarrow> pow2 a \<le> pow2 b"
  by (simp add: pow2_powi power_int_increasing)

lemma pow2_less_cancel: "pow2 a < pow2 b \<Longrightarrow> a < b"
  using pow2_mono [of b a] by (cases "a < b") auto

lemma of_int_bitlen_bounds:
  assumes "0 < n"
  shows "pow2 (bitlen n - 1) \<le> of_int n" and "of_int n < pow2 (bitlen n)"
proof -
  have "bitlen n \<noteq> 0" using assms by (simp add: bitlen_eq_zero_iff)
  with bitlen_nonneg [of n] have b: "1 \<le> bitlen n" by linarith
  have "(2 :: int) ^ nat (bitlen n - 1) \<le> n" and "n < 2 ^ nat (bitlen n)"
    using bitlen_bounds [OF assms] by auto
  then have "(of_int (2 ^ nat (bitlen n - 1)) :: rat) \<le> of_int n"
    and "(of_int n :: rat) < of_int (2 ^ nat (bitlen n))"
    by (simp_all only: of_int_le_iff of_int_less_iff)
  then show "pow2 (bitlen n - 1) \<le> of_int n" and "of_int n < pow2 (bitlen n)"
    using b by (simp_all add: pow2_def)
qed

lemma ilog2_lower:
  assumes "0 < x"
  shows "pow2 (ilog2 x) \<le> x"
proof -
  obtain n d where q: "quotient_of x = (n, d)" by (cases "quotient_of x")
  have d: "0 < d" using quotient_of_denom_pos [OF q] .
  have x: "x = of_int n / of_int d" using quotient_of_div [OF q] .
  have n: "0 < n" using assms d x by (simp add: zero_less_divide_iff)
  let ?k = "bitlen n - bitlen d"
  show ?thesis
  proof (cases "pow2 ?k \<le> x")
    case True
    then show ?thesis by (simp add: ilog2_def q)
  next
    case False
    have "pow2 (bitlen n - 1) / pow2 (bitlen d) \<le> of_int n / of_int d"
      using of_int_bitlen_bounds [OF n] of_int_bitlen_bounds [OF d] d n
      by (intro frac_le) (auto simp: less_imp_le)
    moreover have "pow2 (bitlen n - 1) / pow2 (bitlen d) = pow2 (?k - 1)"
      by (simp add: pow2_powi power_int_diff)
    ultimately have "pow2 (?k - 1) \<le> x" using x by simp
    with False show ?thesis by (simp add: ilog2_def q)
  qed
qed

lemma round_half_even_of_int: "round_half_even (of_int m) = m"
  by (simp add: round_half_even_def)

lemma round_half_even_neg:
  assumes "x \<le> - 1"
  shows "round_half_even x < 0"
proof (cases "x = - 1")
  case True
  then show ?thesis using round_half_even_of_int [of "- 1"] by simp
next
  case False
  with assms have "x < - 1" by simp
  then have "\<lfloor>x\<rfloor> < - 1" by (simp add: floor_less_iff)
  then show ?thesis by (auto simp: round_half_even_def Let_def)
qed

lemma round_half_even_pos:
  assumes "1 \<le> x"
  shows "0 < round_half_even x"
proof -
  have "1 \<le> \<lfloor>x\<rfloor>" using assms by (simp add: le_floor_iff)
  then show ?thesis by (auto simp: round_half_even_def Let_def)
qed

lemma ulp_le_abs:
  assumes "x \<noteq> 0"
  shows "pow2 (ilog2 \<bar>x\<bar> - 52) \<le> \<bar>x\<bar>"
proof -
  have "pow2 (ilog2 \<bar>x\<bar> - 52) \<le> pow2 (ilog2 \<bar>x\<bar>)" by (rule pow2_mono) simp
  also have "\<dots> \<le> \<bar>x\<bar>" using assms by (intro ilog2_lower) simp
  finally show ?thesis .
qed

lemma binary64_neg:
  assumes "x < 0"
  shows "binary64 x < 0"
proof -
  let ?u = "pow2 (ilog2 \<bar>x\<bar> - 52)"
  have u: "0 < ?u" by (rule pow2_pos)
  have "?u \<le> - x" using ulp_le_abs [of x] assms by simp
  then have "x / ?u \<le> - 1" using u by (simp add: pos_divide_le_eq)
  then have "round_half_even (x / ?u) < 0" by (rule round_half_even_neg)
  then have "(of_int (round_half_even (x / ?u)) :: rat) * ?u < 0"
    using u by (simp add: mult_less_0_iff)
  then show ?thesis using assms by (simp add: binary64_def Let_def)
qed

lemma binary64_pos:
  assumes "0 < x"
  shows "0 < binary64 x"
proof -
  let ?u = "pow2 (ilog2 \<bar>x\<bar> - 52)"
  have u: "0 < ?u" by (rule pow2_pos)
  have "?u \<le> x" using ulp_le_abs [of x] assms by simp
  then have "1 \<le> x / ?u" using u by (simp add: pos_le_divide_eq)
  then have "0 < round_half_even (x / ?u)" by (rule round_half_even_pos)
  then have "0 < (of_int (round_half_even (x / ?u)) :: rat) * ?u"
    using u by simp
  then show ?thesis using assms by (simp add: binary64_def Let_def)
qed

lemma binary64_of_int:
  assumes "\<bar>i\<bar> < 2 ^ 53"
  shows "binary64 (of_int i) = of_int i"
proof (cases "i = 0")
  case True
  then show ?thesis by (simp add: binary64_def)
next
  case False
  let ?x = "of_int i :: rat"
  let ?e = "ilog2 \<bar>?x\<bar>"
  have "pow2 ?e \<le> \<bar>?x\<bar>" using False by (intro ilog2_lower) simp
  also have "\<bar>?x\<bar> < pow2 53"
  proof -
    have "(of_int \<bar>i\<bar> :: rat) < of_int (2 ^ 53)" using assms by (simp only: of_int_less_iff)
    then show ?thesis by (simp add: pow2_def)
  qed
  finally have "?e < 53" by (rule pow2_less_cancel)
  then have e: "?e - 52 \<le> 0" by simp
  define m where "m = nat (52 - ?e)"
  have u: "pow2 (?e - 52) = 1 / 2 ^ m"
  proof (cases "?e - 52 = 0")
    case True
    then show ?thesis by (simp add: pow2_def m_def)
  next
    case False
    with e have "?e - 52 < 0" by simp
    then show ?thesis by (simp add: pow2_def m_def)
  qed
  have "round_half_even (?x / pow2 (?e - 52)) = i * 2 ^ m"
    using round_half_even_of_int [of "i * 2 ^ m"] by (simp add: u)
  then show ?thesis using False by (simp add: binary64_def Let_def u)
qed

lemma ilog2_upper:
  assumes "0 < x"
  shows "x < pow2 (ilog2 x + 1)"
proof -
  obtain n d where q: "quotient_of x = (n, d)" by (cases "quotient_of x")
  have d: "0 < d" using quotient_of_denom_pos [OF q] .
  have x: "x = of_int n / of_int d" using quotient_of_div [OF q] .
  have n: "0 < n" using assms d x by (simp add: zero_less_divide_iff)
  let ?k = "bitlen n - bitlen d"
  show ?thesis
  proof (cases "pow2 ?k \<le> x")
    case True
    have "of_int n / of_int d < pow2 (bitlen n) / pow2 (bitlen d - 1)"
      using of_int_bitlen_bounds [OF n] of_int_bitlen_bounds [OF d] d n pow2_pos [of "bitlen d - 1"]
      by (intro frac_less) (auto simp: less_imp_le)
    moreover have "pow2 (bitlen n) / pow2 (bitlen d - 1) = pow2 (?k + 1)"
      using power_int_diff [of "2 :: rat" "bitlen n" "bitlen d - 1"]
      by (simp add: pow2_powi algebra_simps)
    ultimately have "x < pow2 (?k + 1)" using x by simp
    with True show ?thesis by (simp add: ilog2_def q)
  next
    case False
    then show ?thesis by (simp add: ilog2_def q)
  qed
qed

lemma round_half_even_error: "\<bar>of_int (round_half_even x) - x\<bar> \<le> 1 / 2"
proof -
  have "of_int \<lfloor>x\<rfloor> \<le> x" and "x < of_int \<lfloor>x\<rfloor> + 1" by linarith+
  then show ?thesis by (auto simp: round_half_even_def Let_def abs_le_iff)
qed

lemma binary64_error:
  "\<bar>binary64 x - x\<bar> \<le> pow2 (ilog2 \<bar>x\<bar> - 52) / 2"
proof (cases "x = 0")
  case True
  then show ?thesis using pow2_pos [of "ilog2 0 - 52"] by (simp add: binary64_def less_imp_le)
next
  case False
  let ?u = "pow2 (ilog2 \<bar>x\<bar> - 52)"
  have u: "0 < ?u" by (rule pow2_pos)
  have "binary64 x - x = (of_int (round_half_even (x / ?u)) - x / ?u) * ?u"
    using False u by (simp add: binary64_def Let_def field_simps)
  then have "\<bar>binary64 x - x\<bar> = \<bar>of_int (round_half_even (x / ?u)) - x / ?u\<bar> * ?u"
    using u by (simp add: abs_mult)
  also have "\<dots> \<le> (1 / 2) * ?u"
    using round_half_even_error [of "x / ?u"] u by (intro mult_right_mono) simp_all
  finally show ?thesis by simp
qed

section \<open>The temperature reader\<close>

lemma int16_bound:
  "\<bar>if uint (b1 :: u8) + 256 * uint (b2 :: u8) < 32768 then uint b1 + 256 * uint b2
     else uint b1 + 256 * uint b2 - 65536\<bar> < 2 ^ 53"
proof -
  have "0 \<le> uint b1" "uint b1 < 256" "0 \<le> uint b2" "uint b2 < 256"
    using uint_lt2p [of b1] uint_lt2p [of b2] by simp_all
  then show ?thesis by (simp split: if_splits)
qed

text \<open>
  Claim C8. When the write succeeds and the device answers with three bytes
  \<open>b0 b1 b2\<close>, \<open>read_temp\<close> has sent the single byte 0x6C and has asked for 3 bytes on the
  command-in endpoint; it raises \<open>AssertionError\<close> unless \<open>b0\<close> is 0x08; otherwise, with
  \<open>tv\<close> the two's-complement little-endian 16-bit reading of \<open>b1 b2\<close>, it returns the float
  \<open>tv * 0.003906\<close>, that is the double nearest to the product of \<open>tv\<close> and the double nearest
  to 0.003906; this float is negative when \<open>tv\<close> is negative.
\<close>

theorem read_temp_decodes:
  assumes "out_q t = Done n # ws" and "in_q t cmd_r = Done [b0, b1, b2] # rs"
  shows "let u = uint b1 + 256 * uint b2; tv = (if u < 32768 then u else u - 65536) in
     trace (snd (read_temp t)) = trace t @ [Write cmd_w [0x6C], Read cmd_r 3 1000] \<and>
     (b0 \<noteq> 0x08 \<longrightarrow> fst (read_temp t) = Inl AssertionError) \<and>
     (b0 = 0x08 \<longrightarrow>
        fst (read_temp t) = Inr (binary64 (of_int tv * binary64 (3906 / 1000000))) \<and>
        (tv < 0 \<longrightarrow> binary64 (of_int tv * binary64 (3906 / 1000000)) < 0))"
proof -
  define tv where "tv = (if uint b1 + 256 * uint b2 < 32768 then uint b1 + 256 * uint b2
     else uint b1 + 256 * uint b2 - 65536)"
  have ex: "float_of_int tv = of_int tv"
    unfolding float_of_int_def tv_def by (rule binary64_of_int) (rule int16_bound)
  have run: "read_temp t =
     (if b0 \<noteq> 0x08 then Inl AssertionError
      else Inr (binary64 (of_int tv * binary64 (3906 / 1000000))),
      t\<lparr>out_q := ws,
        trace := trace t @ [Write cmd_w [0x6C], Read cmd_r 3 1000],
        in_q := (in_q t)(cmd_r := rs)\<rparr>)"
    using read_temp_transfers [OF assms] ex
    by (simp add: slice_def unpack_le_h_def float_mul_def tv_def Let_def)
  have neg: "tv < 0 \<Longrightarrow> binary64 (of_int tv * binary64 (3906 / 1000000)) < 0"
  proof -
    assume "tv < 0"
    moreover have "0 < binary64 (3906 / 1000000)" by (rule binary64_pos) simp
    ultimately have "of_int tv * binary64 (3906 / 1000000) < 0"
      by (simp add: mult_less_0_iff)
    then show ?thesis by (rule binary64_neg)
  qed
  show ?thesis
    unfolding Let_def tv_def [symmetric] using run neg by simp
qed

text \<open>
  The response \<open>08 64 00\<close> is \<open>tv = 100\<close> and gives the double nearest to 0.3906 (Python
  prints it as \<open>0.3906\<close>); the response \<open>08 9C FF\<close> is \<open>tv = -100\<close> and gives its negative.
\<close>

lemma binary64_100: "binary64 (100 * binary64 (3906 / 1000000)) = binary64 (3906 / 10000)"
  by code_simp

lemma binary64_minus_100:
  "binary64 (- 100 * binary64 (3906 / 1000000)) = - binary64 (3906 / 10000)"
  by code_simp

lemma binary64_03906:
  "binary64 (3906 / 10000) = 7036424057803663 / 18014398509481984"
  by code_simp

theorem read_temp_decodes_witness:
  "fst (read_temp (sim_usb [Done 1] [Done [0x08, 0x64, 0x00]] [] [])) =
     Inr (binary64 (3906 / 10000)) \<and>
   \<bar>binary64 (3906 / 10000) - 3906 / 10000\<bar> < 1 / 10 ^ 16 \<and>
   fst (read_temp (sim_usb [Done 1] [Done [0x08, 0x9C, 0xFF]] [] [])) =
     Inr (- binary64 (3906 / 10000)) \<and>
   fst (read_temp (sim_usb [Done 1] [Done [0x07, 0x64, 0x00]] [] [])) = Inl AssertionError"
proof -
  have a: "out_q (sim_usb [Done 1] cr [] []) = Done 1 # []"
    and b: "in_q (sim_usb [Done 1] [Done resp] [] []) cmd_r = Done resp # []" for cr resp
    by (simp_all add: sim_usb_def cmd_r_def)
  have "fst (read_temp (sim_usb [Done 1] [Done [0x08, 0x64, 0x00]] [] [])) =
     Inr (binary64 (3906 / 10000))"
    using read_temp_decodes [OF a b [of "[0x08, 0x64, 0x00]"]] binary64_100 by (simp add: Let_def)
  moreover have "fst (read_temp (sim_usb [Done 1] [Done [0x08, 0x9C, 0xFF]] [] [])) =
     Inr (- binary64 (3906 / 10000))"
    using read_temp_decodes [OF a b [of "[0x08, 0x9C, 0xFF]"]] binary64_minus_100
    by (simp add: Let_def)
  moreover have "fst (read_temp (sim_usb [Done 1] [Done [0x07, 0x64, 0x00]] [] [])) =
     Inl AssertionError"
    using read_temp_decodes [OF a b [of "[0x07, 0x64, 0x00]"]] by (simp add: Let_def)
  moreover have "\<bar>binary64 (3906 / 10000) - 3906 / 10000\<bar> < 1 / 10 ^ 16"
    unfolding binary64_03906 by simp
  ultimately show ?thesis by blast
qed

end
